theory Spec2Isabelle
  imports Main "HOL-Library.Word"
begin

unbundle bit_operations_syntax

section \<open>The values of the script\<close>

text \<open>
  The program is the script \<^verbatim>\<open>hash_difficulty.py\<close>:
  \<^verbatim>\<open>
  target_hex = "0fff...f"                       (one 0, then 63 f)
  target = int(target_hex, 16)
  prefix = "jesse"
  hits = []
  for nonce in range(64):
      msg = f"{prefix}{nonce}".encode("utf-8")
      h = hashlib.sha256(msg).hexdigest()
      if int(h, 16) < target:
          hits.append((nonce, h))
  print(f"Trials: 64, Target: 0x{target_hex}")
  print(f"Hits: {len(hits)} (... 64 * 1/16 = 4)")
  for n, hx in hits:
      print(f"  nonce={n:2d}  hash=0x{hx}")
  \<close>
  Python integers are unbounded: \<open>int\<close>. A Python \<open>str\<close> that the script reads is a
  \<open>string\<close>, each \<open>char\<close> standing for the code point of the same number (0 to 255);
  \<open>bytes\<close> are lists of 8-bit words. The text the script prints holds code points
  beyond 255, so a printed line is a list of code points. An uncaught exception ends the
  script with a traceback and exit status 1. A run of the script is the list of the lines
  it has printed and the error that ended it, if one did: the lines printed before an
  error stay printed.
\<close>

type_synonym byte = "8 word"
type_synonym u32 = "32 word"
type_synonym unicode = "nat list"

datatype error = ValueError | UnicodeEncodeError

definition str_lit :: "string \<Rightarrow> unicode" where
  "str_lit s = map of_char s"

section \<open>\<open>int(s, 16)\<close>\<close>

text \<open>
  Python's \<open>int(s, 16)\<close> on a \<open>str\<close>: whitespace around the literal is skipped, one sign
  may come first, then an optional \<open>0x\<close> or \<open>0X\<close> (and one underscore after it), then
  hexadecimal digits of either case with single underscores between them. Anything else
  raises \<open>ValueError\<close>.
\<close>

definition is_space :: "char \<Rightarrow> bool" where
  "is_space c = (c \<in> set [CHR 0x09, CHR 0x0A, CHR 0x0B, CHR 0x0C, CHR 0x0D, CHR 0x20,
                             CHR 0x85, CHR 0xA0])"

definition hex_value :: "char \<Rightarrow> int option" where
  "hex_value c =
     (let n = of_char c :: int in
      if 48 \<le> n \<and> n \<le> 57 then Some (n - 48)
      else if 97 \<le> n \<and> n \<le> 102 then Some (n - 87)
      else if 65 \<le> n \<and> n \<le> 70 then Some (n - 55)
      else None)"

text \<open>
  The digit scan: \<open>acc\<close> is the value so far, \<open>prev\<close> tells whether the character
  before was an underscore. It stops at the first character that is neither a digit nor
  an underscore and returns the value and the rest; two underscores in a row or an
  underscore at the end of the digits raise.
\<close>

fun scan_digits :: "int \<Rightarrow> bool \<Rightarrow> string \<Rightarrow> error + int \<times> string" where
  "scan_digits acc prev [] = (if prev then Inl ValueError else Inr (acc, []))"
| "scan_digits acc prev (c # cs) =
     (if c = CHR ''_'' then (if prev then Inl ValueError else scan_digits acc True cs)
      else case hex_value c of
             Some d \<Rightarrow> scan_digits (16 * acc + d) False cs
           | None \<Rightarrow> (if prev then Inl ValueError else Inr (acc, c # cs)))"

fun strip_sign :: "string \<Rightarrow> int \<times> string" where
  "strip_sign [] = (1, [])"
| "strip_sign (c # cs) =
     (if c = CHR ''+'' then (1, cs) else if c = CHR ''-'' then (- 1, cs) else (1, c # cs))"

fun strip_0x :: "string \<Rightarrow> string" where
  "strip_0x (a # b # cs) =
     (if a = CHR ''0'' \<and> (b = CHR ''x'' \<or> b = CHR ''X'')
      then (case cs of [] \<Rightarrow> [] | c # cs' \<Rightarrow> if c = CHR ''_'' then cs' else c # cs')
      else a # b # cs)"
| "strip_0x cs = cs"

definition py_int16 :: "string \<Rightarrow> error + int" where
  "py_int16 s =
     (let (sign, s1) = strip_sign (dropWhile is_space s);
          s2 = strip_0x s1
      in if s2 \<noteq> [] \<and> hd s2 = CHR ''_'' then Inl ValueError
         else case scan_digits 0 False s2 of
                Inl e \<Rightarrow> Inl e
              | Inr (v, rest) \<Rightarrow>
                  if length rest = length s2 then Inl ValueError
                  else if dropWhile is_space rest \<noteq> [] then Inl ValueError
                  else Inr (sign * v))"

section \<open>\<open>str(n)\<close>, \<open>format(n, "2d")\<close> and \<open>str.encode("utf-8")\<close>\<close>

definition digit_char :: "nat \<Rightarrow> char" where
  "digit_char d = char_of (48 + d)"

fun decimal :: "nat \<Rightarrow> string" where
  "decimal n = (if n < 10 then [digit_char n] else decimal (n div 10) @ [digit_char (n mod 10)])"

declare decimal.simps [simp del]

definition py_str :: "int \<Rightarrow> string" where
  "py_str n = (if n < 0 then CHR ''-'' # decimal (nat (- n)) else decimal (nat n))"

text \<open>The format \<open>2d\<close>: the decimal text, padded with spaces on the left to width 2.\<close>

definition format_2d :: "int \<Rightarrow> string" where
  "format_2d n = replicate (2 - length (py_str n)) CHR '' '' @ py_str n"

text \<open>UTF-8 of a code point below 256: one byte below 128, two bytes from 128 on.\<close>

definition utf8_char :: "char \<Rightarrow> byte list" where
  "utf8_char c =
     (let n = of_char c :: nat in
      if n < 128 then [of_nat n] else [of_nat (192 + n div 64), of_nat (128 + n mod 64)])"

definition encode_utf8 :: "string \<Rightarrow> byte list" where
  "encode_utf8 s = concat (map utf8_char s)"

section \<open>\<open>hashlib.sha256(msg).hexdigest()\<close>\<close>

text \<open>
  SHA-256 as FIPS 180-4 defines it: the message is padded with the byte 0x80, zero bytes
  and its length in bits as 8 big-endian bytes to a multiple of 64 bytes; each 64-byte
  block is expanded to 64 words and run through 64 rounds; the eight state words, big
  endian, are the 32 bytes of the digest.
\<close>

definition K256 :: "u32 list" where
  "K256 = [
    0x428A2F98, 0x71374491, 0xB5C0FBCF, 0xE9B5DBA5, 0x3956C25B, 0x59F111F1, 0x923F82A4, 0xAB1C5ED5,
    0xD807AA98, 0x12835B01, 0x243185BE, 0x550C7DC3, 0x72BE5D74, 0x80DEB1FE, 0x9BDC06A7, 0xC19BF174,
    0xE49B69C1, 0xEFBE4786, 0x0FC19DC6, 0x240CA1CC, 0x2DE92C6F, 0x4A7484AA, 0x5CB0A9DC, 0x76F988DA,
    0x983E5152, 0xA831C66D, 0xB00327C8, 0xBF597FC7, 0xC6E00BF3, 0xD5A79147, 0x06CA6351, 0x14292967,
    0x27B70A85, 0x2E1B2138, 0x4D2C6DFC, 0x53380D13, 0x650A7354, 0x766A0ABB, 0x81C2C92E, 0x92722C85,
    0xA2BFE8A1, 0xA81A664B, 0xC24B8B70, 0xC76C51A3, 0xD192E819, 0xD6990624, 0xF40E3585, 0x106AA070,
    0x19A4C116, 0x1E376C08, 0x2748774C, 0x34B0BCB5, 0x391C0CB3, 0x4ED8AA4A, 0x5B9CCA4F, 0x682E6FF3,
    0x748F82EE, 0x78A5636F, 0x84C87814, 0x8CC70208, 0x90BEFFFA, 0xA4506CEB, 0xBEF9A3F7, 0xC67178F2]"

type_synonym sha_state = "u32 \<times> u32 \<times> u32 \<times> u32 \<times> u32 \<times> u32 \<times> u32 \<times> u32"

definition H256_init :: "sha_state" where
  "H256_init = (0x6A09E667, 0xBB67AE85, 0x3C6EF372, 0xA54FF53A,
                0x510E527F, 0x9B05688C, 0x1F83D9AB, 0x5BE0CD19)"

definition Ch :: "u32 \<Rightarrow> u32 \<Rightarrow> u32 \<Rightarrow> u32" where
  "Ch x y z = (x AND y) XOR (NOT x AND z)"

definition Maj :: "u32 \<Rightarrow> u32 \<Rightarrow> u32 \<Rightarrow> u32" where
  "Maj x y z = (x AND y) XOR (x AND z) XOR (y AND z)"

definition Sigma0 :: "u32 \<Rightarrow> u32" where
  "Sigma0 x = word_rotr 2 x XOR word_rotr 13 x XOR word_rotr 22 x"

definition Sigma1 :: "u32 \<Rightarrow> u32" where
  "Sigma1 x = word_rotr 6 x XOR word_rotr 11 x XOR word_rotr 25 x"

definition sigma0 :: "u32 \<Rightarrow> u32" where
  "sigma0 x = word_rotr 7 x XOR word_rotr 18 x XOR drop_bit 3 x"

definition sigma1 :: "u32 \<Rightarrow> u32" where
  "sigma1 x = word_rotr 17 x XOR word_rotr 19 x XOR drop_bit 10 x"

definition length_bytes :: "64 word \<Rightarrow> byte list" where
  "length_bytes l = map (\<lambda>i. ucast (drop_bit (8 * (7 - i)) l)) [0..<8]"

definition sha256_pad :: "byte list \<Rightarrow> byte list" where
  "sha256_pad m = m @ [0x80] @ replicate ((119 - length m mod 64) mod 64) 0
                    @ length_bytes (of_nat (8 * length m))"

fun be_word :: "byte list \<Rightarrow> u32" where
  "be_word [] = 0"
| "be_word (b # bs) = push_bit (8 * length bs) (ucast b) OR be_word bs"

fun chunks :: "nat \<Rightarrow> 'a list \<Rightarrow> 'a list list" where
  "chunks n [] = []"
| "chunks n (x # xs) = (if n = 0 then [] else take n (x # xs) # chunks n (drop n (x # xs)))"

fun schedule :: "nat \<Rightarrow> u32 list \<Rightarrow> u32 list" where
  "schedule 0 w = w"
| "schedule (Suc k) w =
     (let t = length w in
      schedule k (w @ [sigma1 (w ! (t - 2)) + w ! (t - 7) + sigma0 (w ! (t - 15)) + w ! (t - 16)]))"

fun round256 :: "sha_state \<Rightarrow> u32 \<times> u32 \<Rightarrow> sha_state" where
  "round256 (a, b, c, d, e, f, g, h) (k, w) =
     (let t1 = h + Sigma1 e + Ch e f g + k + w;
          t2 = Sigma0 a + Maj a b c
      in (t1 + t2, a, b, c, d + t1, e, f, g))"

fun add_state :: "sha_state \<Rightarrow> sha_state \<Rightarrow> sha_state" where
  "add_state (a, b, c, d, e, f, g, h) (a', b', c', d', e', f', g', h') =
     (a + a', b + b', c + c', d + d', e + e', f + f', g + g', h + h')"

definition compress :: "sha_state \<Rightarrow> byte list \<Rightarrow> sha_state" where
  "compress s block =
     add_state s (foldl round256 s (zip K256 (schedule 48 (map be_word (chunks 4 block)))))"

definition word_bytes :: "u32 \<Rightarrow> byte list" where
  "word_bytes w = [ucast (drop_bit 24 w), ucast (drop_bit 16 w), ucast (drop_bit 8 w), ucast w]"

fun state_bytes :: "sha_state \<Rightarrow> byte list" where
  "state_bytes (a, b, c, d, e, f, g, h) = concat (map word_bytes [a, b, c, d, e, f, g, h])"

definition sha256 :: "byte list \<Rightarrow> byte list" where
  "sha256 m = state_bytes (foldl compress H256_init (chunks 64 (sha256_pad m)))"

text \<open>\<open>hexdigest\<close>: two lowercase hexadecimal digits for each byte.\<close>

definition hex_digit :: "nat \<Rightarrow> char" where
  "hex_digit d = ''0123456789abcdef'' ! d"

definition hex_byte :: "byte \<Rightarrow> string" where
  "hex_byte b = [hex_digit (unat b div 16), hex_digit (unat b mod 16)]"

definition hexdigest :: "byte list \<Rightarrow> string" where
  "hexdigest bs = concat (map hex_byte bs)"

section \<open>The script\<close>

definition target_hex :: "string" where
  "target_hex = ''0fffffffffffffffffffffffffffffffffffffffffffffffffffffffffffffff''"

definition target :: "error + int" where
  "target = py_int16 target_hex"

definition prefix :: "string" where
  "prefix = ''jesse''"

text \<open>\<open>range(n)\<close>: the integers from 0 up to \<open>n - 1\<close>, none when \<open>n \<le> 0\<close>.\<close>

definition py_range :: "int \<Rightarrow> int list" where
  "py_range n = [0..n - 1]"

text \<open>\<open>msg\<close> and \<open>h\<close> of one pass of the loop body.\<close>

definition msg :: "string \<Rightarrow> int \<Rightarrow> byte list" where
  "msg p nonce = encode_utf8 (p @ py_str nonce)"

definition digest_hex :: "string \<Rightarrow> int \<Rightarrow> string" where
  "digest_hex p nonce = hexdigest (sha256 (msg p nonce))"

text \<open>
  The loop over the nonces, the list \<open>hits\<close> passed along. \<open>int(h, 16)\<close> may raise, and
  then the loop ends with the error.
\<close>

fun hits_loop :: "string \<Rightarrow> int \<Rightarrow> int list \<Rightarrow> (int \<times> string) list \<Rightarrow> error + (int \<times> string) list" where
  "hits_loop p t [] hits = Inr hits"
| "hits_loop p t (nonce # rest) hits =
     (let h = digest_hex p nonce in
      case py_int16 h of
        Inl e \<Rightarrow> Inl e
      | Inr v \<Rightarrow> hits_loop p t rest (if v < t then hits @ [(nonce, h)] else hits))"

definition scanner :: "string \<Rightarrow> int \<Rightarrow> int \<Rightarrow> error + (int \<times> string) list" where
  "scanner p t count = hits_loop p t (py_range count) []"

text \<open>The texts of the three prints: the lines that the script sends to \<open>print\<close>, in order.\<close>

definition hit_line :: "int \<times> string \<Rightarrow> unicode" where
  "hit_line nh = str_lit (''  nonce='' @ format_2d (fst nh) @ ''  hash=0x'' @ snd nh)"

definition report :: "string \<Rightarrow> (int \<times> string) list \<Rightarrow> unicode list" where
  "report th hits =
     [str_lit (''Trials: 64, Target: 0x'' @ th),
      str_lit (''Hits: '' @ py_str (int (length hits)) @ '' ('')
        @ [0x671F, 0x5F85, 0x503C, 0x7D04] @ str_lit '' 64 * 1/16 = 4)'']
     @ map hit_line hits"

text \<open>
  \<open>print\<close> writes a line to standard output in the encoding of that stream, which
  belongs to the environment of the run, not to the script: \<open>enc\<close> tells which code
  points the stream can encode. A line with a code point that it cannot encode raises
  \<open>UnicodeEncodeError\<close>: nothing of that line is written, the lines before it are.
\<close>

fun print_lines :: "(nat \<Rightarrow> bool) \<Rightarrow> unicode list \<Rightarrow> unicode list \<times> error option" where
  "print_lines enc [] = ([], None)"
| "print_lines enc (l # ls) =
     (if list_all enc l
      then (case print_lines enc ls of (out, e) \<Rightarrow> (l # out, e))
      else ([], Some UnicodeEncodeError))"

text \<open>Two streams: UTF-8 encodes every code point but the surrogates, ASCII those below 128.\<close>

definition utf8_stdout :: "nat \<Rightarrow> bool" where
  "utf8_stdout c = ((c < 0xD800 \<or> 0xDFFF < c) \<and> c \<le> 0x10FFFF)"

definition ascii_stdout :: "nat \<Rightarrow> bool" where
  "ascii_stdout c = (c < 128)"

text \<open>
  The whole script, with the three constants of the source as parameters (the target's
  text, the prefix and the bound of the range) and the encoding of standard output.
  Nothing is printed before the loop has ended, so a run that raises before the prints
  has printed nothing.
\<close>

definition script :: "(nat \<Rightarrow> bool) \<Rightarrow> string \<Rightarrow> string \<Rightarrow> int \<Rightarrow> unicode list \<times> error option" where
  "script enc th p count =
     (case py_int16 th of
        Inl e \<Rightarrow> ([], Some e)
      | Inr t \<Rightarrow>
          (case scanner p t count of
             Inl e \<Rightarrow> ([], Some e)
           | Inr hits \<Rightarrow> print_lines enc (report th hits)))"

definition main :: "(nat \<Rightarrow> bool) \<Rightarrow> unicode list \<times> error option" where
  "main enc = script enc target_hex prefix 64"

section \<open>The specification's notions\<close>

text \<open>
  The digest as a 256-bit unsigned integer: the 32 bytes of SHA-256 read big endian. The
  script never computes it this way (it parses the hexadecimal text); the two are shown
  equal below.
\<close>

definition be_int :: "byte list \<Rightarrow> int" where
  "be_int bs = foldl (\<lambda>a b. 256 * a + uint b) 0 bs"

definition digest_value :: "string \<Rightarrow> int \<Rightarrow> int" where
  "digest_value p nonce = be_int (sha256 (msg p nonce))"

text \<open>
  The scanner's contract in the specification's words: the pairs of nonce and digest for
  the nonces 0 to \<open>count - 1\<close>, in ascending order, whose digest's integer value is
  strictly below the target.
\<close>

definition spec_hits :: "string \<Rightarrow> int \<Rightarrow> int \<Rightarrow> (int \<times> string) list" where
  "spec_hits p t count =
     filter (\<lambda>nh. digest_value p (fst nh) < t) (map (\<lambda>n. (n, digest_hex p n)) [0..count - 1])"


text \<open>
  The test on the digest's text that stands for the comparison with the script's own
  target: the text begins with the character 0 and is not the target's text.
\<close>

definition leading_zero_hit :: "string \<Rightarrow> bool" where
  "leading_zero_hit h = (take 1 h = ''0'' \<and> h \<noteq> target_hex)"

text \<open>The line of a hit as the specification writes it: \<open>nonce=<int> hash=0x<hex>\<close>.\<close>

definition spec_hit_line :: "int \<times> string \<Rightarrow> unicode" where
  "spec_hit_line nh = str_lit (''nonce='' @ py_str (fst nh) @ '' hash=0x'' @ snd nh)"

section \<open>The loop, one pass at a time\<close>

text \<open>
  The \<open>for\<close> loop as a transition system. \<open>Running i hits\<close>: the range's iterator is
  about to yield \<open>i\<close>; \<open>Finished hits\<close>: the iterator was exhausted and the loop left;
  \<open>Raised e\<close>: the body raised. One transition is one test of the iterator, followed by
  one pass of the body when the range is not exhausted.
\<close>

datatype loop_state =
    Running int "(int \<times> string) list"
  | Finished "(int \<times> string) list"
  | Raised error

inductive iter_step :: "string \<Rightarrow> int \<Rightarrow> int \<Rightarrow> loop_state \<Rightarrow> loop_state \<Rightarrow> bool"
  for p :: string and t :: int and count :: int
where
  stop: "\<not> i < count \<Longrightarrow> iter_step p t count (Running i hits) (Finished hits)"
| raise: "i < count \<Longrightarrow> py_int16 (digest_hex p i) = Inl e
          \<Longrightarrow> iter_step p t count (Running i hits) (Raised e)"
| hit: "i < count \<Longrightarrow> py_int16 (digest_hex p i) = Inr v \<Longrightarrow> v < t
          \<Longrightarrow> iter_step p t count (Running i hits) (Running (i + 1) (hits @ [(i, digest_hex p i)]))"
| miss: "i < count \<Longrightarrow> py_int16 (digest_hex p i) = Inr v \<Longrightarrow> \<not> v < t
          \<Longrightarrow> iter_step p t count (Running i hits) (Running (i + 1) hits)"

code_pred iter_step .

fun final :: "loop_state \<Rightarrow> bool" where
  "final (Running i hits) = False"
| "final (Finished hits) = True"
| "final (Raised e) = True"

section \<open>Parsing the digest's text\<close>

lemma hex_digit_table:
  "list_all (\<lambda>d. hex_value (hex_digit d) = Some (int d) \<and> hex_digit d \<noteq> CHR ''_''
      \<and> \<not> is_space (hex_digit d) \<and> hex_digit d \<noteq> CHR ''+'' \<and> hex_digit d \<noteq> CHR ''-''
      \<and> hex_digit d \<noteq> CHR ''x'' \<and> hex_digit d \<noteq> CHR ''X''
      \<and> hex_digit d \<in> set ''0123456789abcdef'') [0..<16]"
  by code_simp

lemma hex_digit_props:
  assumes "d < 16"
  shows "hex_value (hex_digit d) = Some (int d)" and "hex_digit d \<noteq> CHR ''_''"
    and "\<not> is_space (hex_digit d)" and "hex_digit d \<noteq> CHR ''+''" and "hex_digit d \<noteq> CHR ''-''"
    and "hex_digit d \<noteq> CHR ''x''" and "hex_digit d \<noteq> CHR ''X''"
    and "hex_digit d \<in> set ''0123456789abcdef''"
proof -
  have "d \<in> set [0..<16]" using assms by simp
  with hex_digit_table have
    "hex_value (hex_digit d) = Some (int d) \<and> hex_digit d \<noteq> CHR ''_''
      \<and> \<not> is_space (hex_digit d) \<and> hex_digit d \<noteq> CHR ''+'' \<and> hex_digit d \<noteq> CHR ''-''
      \<and> hex_digit d \<noteq> CHR ''x'' \<and> hex_digit d \<noteq> CHR ''X''
      \<and> hex_digit d \<in> set ''0123456789abcdef''"
    unfolding list_all_iff by blast
  then show "hex_value (hex_digit d) = Some (int d)" and "hex_digit d \<noteq> CHR ''_''"
    and "\<not> is_space (hex_digit d)" and "hex_digit d \<noteq> CHR ''+''" and "hex_digit d \<noteq> CHR ''-''"
    and "hex_digit d \<noteq> CHR ''x''" and "hex_digit d \<noteq> CHR ''X''"
    and "hex_digit d \<in> set ''0123456789abcdef''"
    by blast+
qed

lemma byte_nibbles: "unat (b :: byte) div 16 < 16" "unat b mod 16 < 16"
proof -
  have "unat b < 2 ^ 8" using unsigned_less [of b, where 'a = nat] by simp
  then show "unat b div 16 < 16" by simp
  show "unat b mod 16 < 16" by simp
qed

lemma hexdigest_Cons:
  "hexdigest (b # bs) = hex_digit (unat b div 16) # hex_digit (unat b mod 16) # hexdigest bs"
  by (simp add: hexdigest_def hex_byte_def)

lemma hexdigest_Nil: "hexdigest [] = []"
  by (simp add: hexdigest_def)

lemma length_hexdigest: "length (hexdigest bs) = 2 * length bs"
  by (induction bs) (simp_all add: hexdigest_Cons hexdigest_Nil)

lemma set_hexdigest: "set (hexdigest bs) \<subseteq> set ''0123456789abcdef''"
proof (induction bs)
  case Nil
  show ?case by (simp add: hexdigest_Nil)
next
  case (Cons b bs)
  from hex_digit_props(8) [OF byte_nibbles(1) [of b]] hex_digit_props(8) [OF byte_nibbles(2) [of b]] Cons
  show ?case unfolding hexdigest_Cons by (simp only: set_simps insert_subset)
qed

lemma scan_digits_hexdigest:
  "scan_digits acc False (hexdigest bs) = Inr (foldl (\<lambda>a b. 256 * a + uint b) acc bs, [])"
proof (induction bs arbitrary: acc)
  case Nil
  show ?case by (simp add: hexdigest_Nil)
next
  case (Cons b bs)
  let ?hi = "unat b div 16" and ?lo = "unat b mod 16"
  have val: "16 * (16 * acc + int ?hi) + int ?lo = 256 * acc + uint b"
  proof -
    have "int (unat b) = 16 * int ?hi + int ?lo"
      by (metis mult_div_mod_eq of_nat_add of_nat_mult of_nat_numeral)
    then show ?thesis by simp
  qed
  have "scan_digits acc False (hexdigest (b # bs))
      = scan_digits (16 * (16 * acc + int ?hi) + int ?lo) False (hexdigest bs)"
    unfolding hexdigest_Cons
    by (simp add: hex_digit_props(1,2) [OF byte_nibbles(1)] hex_digit_props(1,2) [OF byte_nibbles(2)])
  also have "\<dots> = scan_digits (256 * acc + uint b) False (hexdigest bs)"
    by (simp only: val)
  also have "\<dots> = Inr (foldl (\<lambda>a b. 256 * a + uint b) (256 * acc + uint b) bs, [])"
    by (rule Cons)
  finally show ?case by simp
qed

lemma py_int16_hexdigest:
  assumes "bs \<noteq> []"
  shows "py_int16 (hexdigest bs) = Inr (be_int bs)"
proof -
  from assms obtain b bs' where bs: "bs = b # bs'" by (cases bs) auto
  let ?c1 = "hex_digit (unat b div 16)" and ?c2 = "hex_digit (unat b mod 16)"
  note p1 = hex_digit_props [OF byte_nibbles(1) [of b]]
  note p2 = hex_digit_props [OF byte_nibbles(2) [of b]]
  have h: "hexdigest bs = ?c1 # ?c2 # hexdigest bs'"
    by (simp add: bs hexdigest_Cons)
  have d: "dropWhile is_space (hexdigest bs) = hexdigest bs"
    by (simp add: h p1(3))
  have s: "strip_sign (hexdigest bs) = (1, hexdigest bs)"
    by (simp add: h p1(4,5))
  have x: "strip_0x (hexdigest bs) = hexdigest bs"
    by (simp add: h p2(6,7))
  have u: "hd (hexdigest bs) \<noteq> CHR ''_''"
    by (simp add: h p1(2))
  have l: "length (hexdigest bs) \<noteq> 0"
    by (simp add: h)
  show ?thesis
    using u l by (simp add: py_int16_def d s x Let_def scan_digits_hexdigest be_int_def)
qed

lemma length_word_bytes: "length (word_bytes w) = 4"
  by (simp add: word_bytes_def)

lemma length_state_bytes: "length (state_bytes s) = 32"
  by (cases s rule: state_bytes.cases) (simp add: length_word_bytes)

lemma length_sha256: "length (sha256 m) = 32"
  by (simp add: sha256_def length_state_bytes)

lemma foldl_be_bounds:
  "0 \<le> acc \<Longrightarrow> 0 \<le> foldl (\<lambda>a b. 256 * a + uint (b :: byte)) acc bs \<and>
     foldl (\<lambda>a b. 256 * a + uint b) acc bs < (acc + 1) * 256 ^ length bs"
proof (induction bs arbitrary: acc)
  case Nil
  then show ?case by simp
next
  case (Cons b bs)
  have b0: "0 \<le> uint b" and b1: "uint b < 256"
    using unsigned_less [of b, where 'a = int] by simp_all
  from Cons.prems b0 have a: "0 \<le> 256 * acc + uint b" by simp
  from Cons.IH [OF a] have lo: "0 \<le> foldl (\<lambda>a b. 256 * a + uint b) (256 * acc + uint b) bs"
    and hi: "foldl (\<lambda>a b. 256 * a + uint b) (256 * acc + uint b) bs
               < (256 * acc + uint b + 1) * 256 ^ length bs"
    by simp_all
  have "(256 * acc + uint b + 1) * 256 ^ length bs \<le> (256 * acc + 256) * (256 ^ length bs :: int)"
    using b1 by (intro mult_right_mono) simp_all
  also have "\<dots> = (acc + 1) * 256 ^ length (b # bs)"
    by (simp add: algebra_simps)
  finally have "foldl (\<lambda>a b. 256 * a + uint b) (256 * acc + uint b) bs < (acc + 1) * 256 ^ length (b # bs)"
    using hi by linarith
  with lo show ?case by simp
qed

lemma be_int_bounds: "0 \<le> be_int bs" "be_int bs < 256 ^ length bs"
  using foldl_be_bounds [of 0 bs] by (simp_all add: be_int_def)

lemma py_int16_digest: "py_int16 (digest_hex p n) = Inr (digest_value p n)"
proof -
  have "sha256 (msg p n) \<noteq> []" using length_sha256 [of "msg p n"] by auto
  then show ?thesis
    by (simp add: digest_hex_def digest_value_def py_int16_hexdigest)
qed

lemma digest_value_bounds: "0 \<le> digest_value p n" "digest_value p n < 2 ^ 256"
proof -
  show "0 \<le> digest_value p n" by (simp add: digest_value_def be_int_bounds)
  have "digest_value p n < 256 ^ 32"
    using be_int_bounds(2) [of "sha256 (msg p n)"] by (simp add: digest_value_def length_sha256)
  then show "digest_value p n < 2 ^ 256" by simp
qed

lemma hits_loop_eq:
  "hits_loop p t ns acc
     = Inr (acc @ filter (\<lambda>nh. digest_value p (fst nh) < t) (map (\<lambda>n. (n, digest_hex p n)) ns))"
  by (induction ns arbitrary: acc) (simp_all add: py_int16_digest)

lemma scanner_eq: "scanner p t count = Inr (spec_hits p t count)"
  by (simp add: scanner_def spec_hits_def py_range_def hits_loop_eq)

section \<open>Runs of the loop\<close>

lemma iter_step_det: "iter_step p t c s a \<Longrightarrow> iter_step p t c s b \<Longrightarrow> a = b"
  by (auto elim!: iter_step.cases)

lemma final_no_step: "final s \<Longrightarrow> \<not> iter_step p t c s s'"
  by (auto elim: iter_step.cases)

lemma runs_det:
  assumes "(iter_step p t c)\<^sup>*\<^sup>* s a" and "final a" and "(iter_step p t c)\<^sup>*\<^sup>* s b" and "final b"
  shows "a = b"
  using assms
proof (induction arbitrary: b rule: converse_rtranclp_induct)
  case base
  from base(2) show ?case
  proof (cases rule: converse_rtranclpE)
    case base
    then show ?thesis by simp
  next
    case (step y)
    with final_no_step [OF \<open>final a\<close>] show ?thesis by blast
  qed
next
  case (step x y)
  from step.prems(2) show ?case
  proof (cases rule: converse_rtranclpE)
    case base
    with step.hyps(1) final_no_step [OF \<open>final b\<close>] show ?thesis by blast
  next
    case (step z)
    with \<open>iter_step p t c x y\<close> have "z = y" using iter_step_det by blast
    with step step.IH [OF \<open>final a\<close> _ \<open>final b\<close>] show ?thesis by blast
  qed
qed

lemma iter_step_body:
  assumes "i < c"
  shows "iter_step p t c (Running i acc)
           (Running (i + 1) (if digest_value p i < t then acc @ [(i, digest_hex p i)] else acc))"
proof (cases "digest_value p i < t")
  case True
  have "iter_step p t c (Running i acc) (Running (i + 1) (acc @ [(i, digest_hex p i)]))"
    using assms py_int16_digest True by (rule iter_step.hit)
  with True show ?thesis by simp
next
  case False
  have "iter_step p t c (Running i acc) (Running (i + 1) acc)"
    using assms py_int16_digest False by (rule iter_step.miss)
  with False show ?thesis by simp
qed

lemma run_body:
  "0 \<le> i \<Longrightarrow> i \<le> c \<Longrightarrow> k = nat (c - i) \<Longrightarrow>
   (iter_step p t c ^^ k) (Running i acc)
     (Running c (acc @ filter (\<lambda>nh. digest_value p (fst nh) < t)
                         (map (\<lambda>n. (n, digest_hex p n)) [i..c - 1])))"
proof (induction k arbitrary: i acc)
  case 0
  then have "i = c" by simp
  then show ?case by simp
next
  case (Suc k)
  then have lt: "i < c" by simp
  have up: "[i..c - 1] = i # [i + 1..c - 1]"
    using lt by (simp add: upto_rec1)
  let ?acc = "if digest_value p i < t then acc @ [(i, digest_hex p i)] else acc"
  have ih: "(iter_step p t c ^^ k) (Running (i + 1) ?acc)
     (Running c (?acc @ filter (\<lambda>nh. digest_value p (fst nh) < t)
                         (map (\<lambda>n. (n, digest_hex p n)) [i + 1..c - 1])))"
    using Suc.prems by (intro Suc.IH) simp_all
  have eq: "?acc @ filter (\<lambda>nh. digest_value p (fst nh) < t)
                         (map (\<lambda>n. (n, digest_hex p n)) [i + 1..c - 1])
      = acc @ filter (\<lambda>nh. digest_value p (fst nh) < t)
                         (map (\<lambda>n. (n, digest_hex p n)) [i..c - 1])"
    unfolding up by simp
  from relpowp_Suc_I2 [OF iter_step_body [OF lt] ih] show ?case
    unfolding eq .
qed

lemma run_to_exhaustion:
  "(iter_step p t c ^^ nat c) (Running 0 []) (Running (max 0 c) (spec_hits p t c))"
proof (cases "0 \<le> c")
  case True
  with run_body [of 0 c "nat c" p t "[]"] show ?thesis
    by (simp add: spec_hits_def max_def)
next
  case False
  then have "[0..c - 1] = []" by simp
  with False show ?thesis by (simp add: spec_hits_def max_def)
qed

lemma run_stop: "iter_step p t c (Running (max 0 c) hits) (Finished hits)"
  by (rule iter_step.stop) simp

lemma run_finishes:
  "(iter_step p t c ^^ (nat c + 1)) (Running 0 []) (Finished (spec_hits p t c))"
  using relpowp_Suc_I [OF run_to_exhaustion run_stop] by simp

lemma bounded_runs:
  assumes "(iter_step p t c ^^ n) s f" and "final f" and "(iter_step p t c ^^ k) s x"
  shows "k \<le> n"
  using assms
proof (induction n arbitrary: s k)
  case 0
  then have "s = f" by simp
  show ?case
  proof (cases k)
    case 0
    then show ?thesis by simp
  next
    case (Suc k')
    with "0.prems"(3) obtain y where "iter_step p t c s y"
      by (metis relpowp_Suc_D2)
    with \<open>s = f\<close> final_no_step [OF \<open>final f\<close>] show ?thesis by blast
  qed
next
  case (Suc n)
  from Suc.prems(1) obtain y where y: "iter_step p t c s y" "(iter_step p t c ^^ n) y f"
    by (metis relpowp_Suc_D2)
  show ?case
  proof (cases k)
    case 0
    then show ?thesis by simp
  next
    case (Suc k')
    with Suc.prems(3) obtain z where z: "iter_step p t c s z" "(iter_step p t c ^^ k') z x"
      by (metis relpowp_Suc_D2)
    from y(1) z(1) have "z = y" using iter_step_det by blast
    with Suc.IH [OF y(2) \<open>final f\<close>] z(2) have "k' \<le> n" by blast
    with Suc show ?thesis by simp
  qed
qed

section \<open>The script's target\<close>

lemma target_value_num:
  "py_int16 target_hex = Inr 0x0fffffffffffffffffffffffffffffffffffffffffffffffffffffffffffffff"
  by code_simp

lemma target_num:
  "(0x0fffffffffffffffffffffffffffffffffffffffffffffffffffffffffffffff :: int) = 2 ^ 252 - 1"
  by simp

lemma target_value: "py_int16 target_hex = Inr (2 ^ 252 - 1)"
  by (simp only: target_value_num target_num)

lemma foldl_be_split:
  "foldl (\<lambda>a b. 256 * a + uint (b :: byte)) acc bs
     = acc * 256 ^ length bs + foldl (\<lambda>a b. 256 * a + uint b) 0 bs"
proof (induction bs arbitrary: acc)
  case Nil
  show ?case by simp
next
  case (Cons b bs)
  show ?case
    using Cons [of "256 * acc + uint b"] Cons [of "uint b"]
    by (simp add: algebra_simps)
qed

lemma be_int_Cons: "be_int (b # bs) = uint b * 256 ^ length bs + be_int bs"
  using foldl_be_split [of "uint b" bs] by (simp add: be_int_def)

lemma base256_unique:
  fixes a a' u v :: int
  assumes "256 * a + u = 256 * a' + v" "0 \<le> u" "u < 256" "0 \<le> v" "v < 256"
  shows "a = a' \<and> u = v"
proof -
  have "(256 * a + u) div 256 = a" using assms(2,3) by simp
  moreover have "(256 * a' + v) div 256 = a'" using assms(4,5) by simp
  ultimately have "a = a'" using assms(1) by simp
  with assms(1) show ?thesis by simp
qed

lemma foldl_be_inj:
  "length xs = length ys \<Longrightarrow>
   foldl (\<lambda>a b. 256 * a + uint (b :: byte)) a xs = foldl (\<lambda>a b. 256 * a + uint b) a' ys
   \<Longrightarrow> a = a' \<and> xs = ys"
proof (induction xs ys arbitrary: a a' rule: list_induct2)
  case Nil
  then show ?case by simp
next
  case (Cons x xs y ys)
  from Cons.prems have "foldl (\<lambda>a b. 256 * a + uint b) (256 * a + uint x) xs
      = foldl (\<lambda>a b. 256 * a + uint b) (256 * a' + uint y) ys" by simp
  from Cons.IH [OF this] have e: "256 * a + uint x = 256 * a' + uint y" and r: "xs = ys"
    by simp_all
  have bx: "0 \<le> uint x" "uint x < 256" and "by": "0 \<le> uint y" "uint y < 256"
    using unsigned_less [of x, where 'a = int] unsigned_less [of y, where 'a = int] by simp_all
  from base256_unique [OF e bx "by"] have "a = a'" and "uint x = uint y" by simp_all
  then show ?case using r by (simp add: word_uint_eq_iff)
qed

lemma be_int_inj: "length xs = length ys \<Longrightarrow> be_int xs = be_int ys \<Longrightarrow> xs = ys"
  using foldl_be_inj [of xs ys 0 0] by (simp add: be_int_def)

lemma hex_digit_zero_table:
  "list_all (\<lambda>d. (hex_digit d = CHR ''0'') = (d = 0)) [0..<16]"
  by code_simp

lemma hex_digit_zero: "d < 16 \<Longrightarrow> (hex_digit d = CHR ''0'') = (d = 0)"
proof -
  assume "d < 16"
  then have "d \<in> set [0..<16]" by simp
  with hex_digit_zero_table show ?thesis unfolding list_all_iff by blast
qed

lemma target_bytes: "hexdigest (0x0f # replicate 31 0xff) = target_hex"
  by code_simp

lemma be_int_target_bytes: "be_int (0x0f # replicate 31 0xff) = 2 ^ 252 - 1"
proof -
  have a: "py_int16 (hexdigest (0x0f # replicate 31 0xff)) = Inr (be_int (0x0f # replicate 31 0xff))"
    by (rule py_int16_hexdigest) simp
  have b: "py_int16 (hexdigest (0x0f # replicate 31 0xff)) = Inr (2 ^ 252 - 1)"
    by (simp only: target_bytes target_value)
  from a b show ?thesis by (simp only: sum.inject)
qed

lemma top_digit_lt:
  fixes u r M :: int
  assumes "0 \<le> r" "r < M"
  shows "(u * M + r < 16 * M) = (u < 16)"
proof
  assume a: "u * M + r < 16 * M"
  show "u < 16"
  proof (rule ccontr)
    assume "\<not> u < 16"
    then have "16 \<le> u" by simp
    moreover have "0 \<le> M" using assms by simp
    ultimately have "16 * M \<le> u * M" by (rule mult_right_mono)
    with a assms(1) show False by linarith
  qed
next
  assume "u < 16"
  then have "u \<le> 15" by simp
  moreover have "0 \<le> M" using assms by simp
  ultimately have "u * M \<le> 15 * M" by (rule mult_right_mono)
  with assms(2) show "u * M + r < 16 * M" by linarith
qed

lemma p252: "(2::int) ^ 252 = 16 * 256 ^ 31"
  by simp

lemma strict_split: "((x::int) < m - 1) = (x < m \<and> x \<noteq> m - 1)"
  by linarith

lemma length_32_Cons:
  assumes "length bs = 32"
  obtains b bs' where "bs = b # bs'" and "length bs' = 31"
proof (cases bs)
  case Nil
  with assms show ?thesis by simp
next
  case (Cons b bs')
  with assms have "length bs' = 31" by simp
  with Cons that show ?thesis by blast
qed

lemma be_int_below_2_252:
  assumes "length bs' = 31"
  shows "(be_int (b # bs') < 2 ^ 252) = (uint b < 16)"
proof -
  have r: "0 \<le> be_int bs'" "be_int bs' < 256 ^ 31"
    using be_int_bounds [of bs'] by (simp_all only: assms)
  have "(uint b * 256 ^ 31 + be_int bs' < 16 * 256 ^ 31) = (uint b < 16)"
    using r by (rule top_digit_lt)
  then show ?thesis
    by (simp only: be_int_Cons assms p252)
qed

lemma first_char_zero:
  "(take 1 (hexdigest (b # bs')) = ''0'') = (uint b < 16)"
proof -
  have "(hex_digit (unat b div 16) = CHR ''0'') = (unat b div 16 = 0)"
    by (rule hex_digit_zero) (rule byte_nibbles)
  moreover have "(unat b div 16 = 0) = (unat b < 16)" by auto
  moreover have "(unat b < 16) = (uint b < 16)"
  proof -
    have "int (unat b) = uint b" by simp
    moreover have "(unat b < 16) = (int (unat b) < 16)" by linarith
    ultimately show ?thesis by (simp only:)
  qed
  ultimately show ?thesis by (simp add: hexdigest_Cons)
qed

lemma be_int_is_target:
  assumes "length bs = 32"
  shows "(be_int bs = 2 ^ 252 - 1) = (hexdigest bs = target_hex)"
proof
  assume "be_int bs = 2 ^ 252 - 1"
  then have "be_int bs = be_int (0x0f # replicate 31 0xff)"
    by (simp only: be_int_target_bytes)
  moreover have "length bs = length ((0x0f :: byte) # replicate 31 0xff)"
    by (simp add: assms)
  ultimately have "bs = 0x0f # replicate 31 0xff"
    by (rule be_int_inj [rotated])
  then show "hexdigest bs = target_hex" by (simp only: target_bytes)
next
  assume h: "hexdigest bs = target_hex"
  have "bs \<noteq> []" using assms by auto
  then have "py_int16 (hexdigest bs) = Inr (be_int bs)"
    by (rule py_int16_hexdigest)
  with h target_value have "Inr (be_int bs) = (Inr (2 ^ 252 - 1) :: error + int)"
    by (simp only:)
  then show "be_int bs = 2 ^ 252 - 1" by (simp only: sum.inject)
qed

lemma below_target_iff:
  assumes "length bs = 32"
  shows "(be_int bs < 2 ^ 252 - 1) = leading_zero_hit (hexdigest bs)"
proof -
  from assms obtain b bs' where bs: "bs = b # bs'" and len: "length bs' = 31"
    by (rule length_32_Cons)
  have "(be_int bs < 2 ^ 252 - 1) = (be_int bs < 2 ^ 252 \<and> be_int bs \<noteq> 2 ^ 252 - 1)"
    by (rule strict_split)
  also have "\<dots> = (uint b < 16 \<and> hexdigest bs \<noteq> target_hex)"
    using be_int_below_2_252 [OF len, of b] be_int_is_target [OF assms]
    by (simp only: bs)
  also have "\<dots> = leading_zero_hit (hexdigest bs)"
    using first_char_zero [of b bs'] by (simp only: leading_zero_hit_def bs)
  finally show ?thesis .
qed

lemma digest_below_target_iff:
  "(digest_value p n < 2 ^ 252 - 1) = leading_zero_hit (digest_hex p n)"
  unfolding digest_value_def digest_hex_def
  by (rule below_target_iff) (rule length_sha256)

section \<open>Evaluated digests\<close>

text \<open>
  The digests of \<open>jesse0\<close>, \<open>jesse1\<close> and \<open>jesse63\<close>, computed by the definitions
  above, and the standard test vector \<open>abc\<close> of SHA-256.
\<close>

lemma digest_hex_0:
  "digest_hex prefix 0 = ''03cd34bd1813f6c4658024eaa97dd5da854d6e96547f914688fcbe78aca4b5f8''"
  by code_simp

lemma digest_hex_1:
  "digest_hex prefix 1 = ''ab4ec62c3da85a92a6d9cf6bfd8434710cbffa5be132be3864747b568e7a8927''"
  by code_simp

lemma digest_hex_63:
  "digest_hex prefix 63 = ''a0d8baa8725cc5ef9fc30ce8a9d906007a3d90a30cc1e03b97d375a4310b104e''"
  by code_simp

lemma parse_digest_0:
  "py_int16 ''03cd34bd1813f6c4658024eaa97dd5da854d6e96547f914688fcbe78aca4b5f8''
     = Inr 0x03cd34bd1813f6c4658024eaa97dd5da854d6e96547f914688fcbe78aca4b5f8"
  by code_simp

lemma parse_digest_1:
  "py_int16 ''ab4ec62c3da85a92a6d9cf6bfd8434710cbffa5be132be3864747b568e7a8927''
     = Inr 0xab4ec62c3da85a92a6d9cf6bfd8434710cbffa5be132be3864747b568e7a8927"
  by code_simp

lemma parse_digest_63:
  "py_int16 ''a0d8baa8725cc5ef9fc30ce8a9d906007a3d90a30cc1e03b97d375a4310b104e''
     = Inr 0xa0d8baa8725cc5ef9fc30ce8a9d906007a3d90a30cc1e03b97d375a4310b104e"
  by code_simp

lemma digest_value_0:
  "digest_value prefix 0 = 0x03cd34bd1813f6c4658024eaa97dd5da854d6e96547f914688fcbe78aca4b5f8"
  using py_int16_digest [of prefix 0] by (simp only: digest_hex_0 parse_digest_0 sum.inject)

lemma digest_value_1:
  "digest_value prefix 1 = 0xab4ec62c3da85a92a6d9cf6bfd8434710cbffa5be132be3864747b568e7a8927"
  using py_int16_digest [of prefix 1] by (simp only: digest_hex_1 parse_digest_1 sum.inject)

lemma digest_value_63:
  "digest_value prefix 63 = 0xa0d8baa8725cc5ef9fc30ce8a9d906007a3d90a30cc1e03b97d375a4310b104e"
  using py_int16_digest [of prefix 63] by (simp only: digest_hex_63 parse_digest_63 sum.inject)

lemma hit_0: "digest_value prefix 0 < 2 ^ 252 - 1"
  by (simp add: digest_value_0)

lemma miss_1: "\<not> digest_value prefix 1 < 2 ^ 252 - 1"
  by (simp add: digest_value_1)

lemma miss_63: "\<not> digest_value prefix 63 < 2 ^ 252 - 1"
  by (simp add: digest_value_63)

lemma sha256_abc:
  "hexdigest (sha256 (encode_utf8 ''abc''))
     = ''ba7816bf8f01cfea414140de5dae2223b00361a396177a9cb410ff61f20015ad''"
  by code_simp

lemma spec_hits_1: "spec_hits prefix (2 ^ 252 - 1) 1
    = [(0, ''03cd34bd1813f6c4658024eaa97dd5da854d6e96547f914688fcbe78aca4b5f8'')]"
  using hit_0 by (simp add: spec_hits_def digest_hex_0)

lemma spec_hits_2: "spec_hits prefix (2 ^ 252 - 1) 2
    = [(0, ''03cd34bd1813f6c4658024eaa97dd5da854d6e96547f914688fcbe78aca4b5f8'')]"
proof -
  have "[0..2 - 1] = [0, 1 :: int]" by (simp add: upto_rec1)
  then show ?thesis
    using hit_0 miss_1 by (simp add: spec_hits_def digest_hex_0)
qed

lemma map_fst_spec_hits:
  "map fst (spec_hits p t count) = filter (\<lambda>n. digest_value p n < t) [0..count - 1]"
  unfolding spec_hits_def by (induction "[0..count - 1]" arbitrary: count) (simp_all add: filter_map comp_def)

lemma ascending_upto: "sorted_wrt (<) [i..j :: int]"
  by (simp add: strict_sorted_iff)

lemma ascending_spec_hits: "sorted_wrt (<) (map fst (spec_hits p t count))"
  unfolding map_fst_spec_hits by (rule sorted_wrt_filter) (rule ascending_upto)

section \<open>The claims\<close>

text \<open>
  Claim C1. For every prefix, target and count, the scanner returns exactly the pairs of
  nonce and digest, for the nonces 0 to \<open>count - 1\<close>, whose digest's integer value is
  strictly below the target: the loop never raises, its result is the list of the
  specification, no nonce of the range is skipped, and the nonces of the hits are
  strictly ascending.
\<close>

theorem scanner_refines_spec:
  "scanner p t count = Inr (spec_hits p t count)
   \<and> map fst (spec_hits p t count) = filter (\<lambda>n. digest_value p n < t) [0..count - 1]
   \<and> sorted_wrt (<) (map fst (spec_hits p t count))"
  by (simp only: scanner_eq map_fst_spec_hits [symmetric] ascending_spec_hits)

theorem scanner_refines_spec_witness:
  "scanner prefix (2 ^ 252 - 1) 2
     = Inr [(0, ''03cd34bd1813f6c4658024eaa97dd5da854d6e96547f914688fcbe78aca4b5f8'')]"
  using scanner_refines_spec [of prefix "2 ^ 252 - 1" 2] by (simp only: spec_hits_2)

lemma filter_mono_length_set:
  assumes "\<And>x. P x \<Longrightarrow> Q x"
  shows "length (filter P xs) \<le> length (filter Q xs) \<and> set (filter P xs) \<subseteq> set (filter Q xs)"
  using assms by (induction xs) auto

lemma spec_hits_mono:
  assumes "t1 \<le> t2"
  shows "length (spec_hits p t1 count) \<le> length (spec_hits p t2 count)
    \<and> set (spec_hits p t1 count) \<subseteq> set (spec_hits p t2 count)"
  unfolding spec_hits_def
  by (rule filter_mono_length_set) (use assms in linarith)

text \<open>
  Claim C5. For every prefix and count and all targets \<open>t1 \<le> t2\<close>, both scans return,
  and the scan with target \<open>t1\<close> has at most as many hits as the scan with target \<open>t2\<close>
  (its hits are among those of the other).
\<close>

theorem hit_count_monotone:
  assumes "t1 \<le> t2"
  shows "\<exists>h1 h2. scanner p t1 count = Inr h1 \<and> scanner p t2 count = Inr h2
           \<and> length h1 \<le> length h2 \<and> set h1 \<subseteq> set h2"
  using spec_hits_mono [OF assms, where p = p and count = count] by (simp add: scanner_eq)

lemma spec_hits_target_0: "spec_hits p 0 count = []"
proof -
  have "\<not> digest_value p n < 0" for n
    using digest_value_bounds(1) [of p n] by simp
  then show ?thesis by (simp add: spec_hits_def)
qed

theorem hit_count_monotone_witness:
  "(0 :: int) \<le> 2 ^ 252 - 1
   \<and> scanner prefix 0 2 = Inr []
   \<and> scanner prefix (2 ^ 252 - 1) 2
       = Inr [(0, ''03cd34bd1813f6c4658024eaa97dd5da854d6e96547f914688fcbe78aca4b5f8'')]
   \<and> (\<exists>h1 h2. scanner prefix 0 2 = Inr h1 \<and> scanner prefix (2 ^ 252 - 1) 2 = Inr h2
           \<and> length h1 \<le> length h2 \<and> set h1 \<subseteq> set h2)"
proof -
  have le: "(0 :: int) \<le> 2 ^ 252 - 1" by simp
  from hit_count_monotone [OF le, where p = prefix and count = 2] le show ?thesis
    by (simp only: scanner_eq spec_hits_target_0 spec_hits_2 simp_thms)
qed

text \<open>
  Claim C6. The scan is deterministic. Every state of the loop has at most one successor,
  and two complete runs from the initial state, with the same prefix, target and count, end
  in the same state: the loop has finished with the hits that the scanner returns.
\<close>

theorem scan_deterministic:
  "(iter_step p t count s a \<longrightarrow> iter_step p t count s b \<longrightarrow> a = b)
   \<and> ((iter_step p t count)\<^sup>*\<^sup>* (Running 0 []) s1 \<longrightarrow> final s1 \<longrightarrow>
      (iter_step p t count)\<^sup>*\<^sup>* (Running 0 []) s2 \<longrightarrow> final s2 \<longrightarrow>
      s1 = s2 \<and> s1 = Finished (spec_hits p t count)
        \<and> scanner p t count = Inr (spec_hits p t count))"
proof -
  have run: "(iter_step p t count)\<^sup>*\<^sup>* (Running 0 []) (Finished (spec_hits p t count))"
    using run_finishes by (rule relpowp_imp_rtranclp)
  have fin: "final (Finished (spec_hits p t count))" by simp
  show ?thesis
    using iter_step_det [where p = p and t = t and c = count and s = s and a = a and b = b]
      runs_det [OF _ _ run fin, where a = s1] runs_det [OF _ _ run fin, where a = s2]
    by (auto simp: scanner_eq)
qed

lemma first_pass_hit:
  "iter_step prefix (2 ^ 252 - 1) 1 (Running 0 [])
     (Running 1 [(0, ''03cd34bd1813f6c4658024eaa97dd5da854d6e96547f914688fcbe78aca4b5f8'')])"
  using iter_step_body [where i = 0 and c = 1 and p = prefix and t = "2 ^ 252 - 1" and acc = "[]"] hit_0
  by (simp add: digest_hex_0)

lemma one_pass_run:
  "(iter_step prefix (2 ^ 252 - 1) 1)\<^sup>*\<^sup>* (Running 0 [])
     (Finished [(0, ''03cd34bd1813f6c4658024eaa97dd5da854d6e96547f914688fcbe78aca4b5f8'')])"
  using relpowp_imp_rtranclp [OF run_finishes [where p = prefix and t = "2 ^ 252 - 1" and c = 1]]
  by (simp only: spec_hits_1)

theorem scan_deterministic_witness:
  "iter_step prefix (2 ^ 252 - 1) 1 (Running 0 [])
     (Running 1 [(0, ''03cd34bd1813f6c4658024eaa97dd5da854d6e96547f914688fcbe78aca4b5f8'')])
   \<and> (iter_step prefix (2 ^ 252 - 1) 1)\<^sup>*\<^sup>* (Running 0 [])
        (Finished [(0, ''03cd34bd1813f6c4658024eaa97dd5da854d6e96547f914688fcbe78aca4b5f8'')])
   \<and> final (Finished [(0, ''03cd34bd1813f6c4658024eaa97dd5da854d6e96547f914688fcbe78aca4b5f8'')])
   \<and> Finished [(0, ''03cd34bd1813f6c4658024eaa97dd5da854d6e96547f914688fcbe78aca4b5f8'')]
       = Finished (spec_hits prefix (2 ^ 252 - 1) 1)
   \<and> scanner prefix (2 ^ 252 - 1) 1
       = Inr [(0, ''03cd34bd1813f6c4658024eaa97dd5da854d6e96547f914688fcbe78aca4b5f8'')]"
  using scan_deterministic [where p = prefix and t = "2 ^ 252 - 1" and count = 1
      and s = "Running 0 []"
      and a = "Running 1 [(0, ''03cd34bd1813f6c4658024eaa97dd5da854d6e96547f914688fcbe78aca4b5f8'')]"
      and b = "Running 1 [(0, ''03cd34bd1813f6c4658024eaa97dd5da854d6e96547f914688fcbe78aca4b5f8'')]"
      and ?s1.0 = "Finished [(0, ''03cd34bd1813f6c4658024eaa97dd5da854d6e96547f914688fcbe78aca4b5f8'')]"
      and ?s2.0 = "Finished [(0, ''03cd34bd1813f6c4658024eaa97dd5da854d6e96547f914688fcbe78aca4b5f8'')]"]
    first_pass_hit one_pass_run
  by (simp add: spec_hits_1)

text \<open>
  Claim C9. The scan always terminates. From the initial state the loop makes exactly
  \<open>count\<close> passes of its body (64 in the script, none for a count below 1), then
  leaves; the scanner returns the hits; and no run of the loop from the initial state is
  longer than these \<open>count + 1\<close> transitions.
\<close>

theorem scan_terminates:
  "(iter_step p t count ^^ nat count) (Running 0 []) (Running (max 0 count) (spec_hits p t count))
   \<and> iter_step p t count (Running (max 0 count) (spec_hits p t count))
        (Finished (spec_hits p t count))
   \<and> scanner p t count = Inr (spec_hits p t count)
   \<and> ((iter_step p t count ^^ k) (Running 0 []) s \<longrightarrow> k \<le> nat count + 1)"
proof -
  have "final (Finished (spec_hits p t count))" by simp
  from bounded_runs [OF run_finishes this]
  have "(iter_step p t count ^^ k) (Running 0 []) s \<longrightarrow> k \<le> nat count + 1"
    by blast
  with run_to_exhaustion [where p = p and t = t and c = count]
    run_stop [where p = p and t = t and c = count and hits = "spec_hits p t count"]
  show ?thesis by (simp only: scanner_eq simp_thms)
qed

theorem scan_terminates_witness:
  "(iter_step prefix (2 ^ 252 - 1) 64 ^^ 64) (Running 0 [])
       (Running 64 (spec_hits prefix (2 ^ 252 - 1) 64))
   \<and> iter_step prefix (2 ^ 252 - 1) 64 (Running 64 (spec_hits prefix (2 ^ 252 - 1) 64))
        (Finished (spec_hits prefix (2 ^ 252 - 1) 64))
   \<and> (iter_step prefix (2 ^ 252 - 1) 64 ^^ 65) (Running 0 [])
        (Finished (spec_hits prefix (2 ^ 252 - 1) 64))
   \<and> (65 :: nat) \<le> nat 64 + 1"
proof -
  have n: "nat 64 = 64" "max 0 (64 :: int) = 64" "(64 :: nat) + 1 = 65" by simp_all
  have r: "(iter_step prefix (2 ^ 252 - 1) 64 ^^ 65) (Running 0 [])
        (Finished (spec_hits prefix (2 ^ 252 - 1) 64))"
    using run_finishes [where p = prefix and t = "2 ^ 252 - 1" and c = 64] by (simp only: n)
  from scan_terminates [where p = prefix and t = "2 ^ 252 - 1" and count = 64 and k = 65
      and s = "Finished (spec_hits prefix (2 ^ 252 - 1) 64)"] r
  show ?thesis by (simp only: n simp_thms)
qed

lemma spec_hits_member:
  "((n, h) \<in> set (spec_hits p t count))
     = (0 \<le> n \<and> n < count \<and> h = digest_hex p n \<and> digest_value p n < t)"
  unfolding spec_hits_def by auto

text \<open>
  Claim C8. Round trip: the hexadecimal text of a digest parses back, in base 16, to the
  big-endian integer of the digest's 32 bytes, and that integer is the one compared with
  the target: every hit that the scanner stores carries the text of its nonce's digest,
  the text parses to the digest's value, and the value is below the target.
\<close>

theorem hex_roundtrip:
  "py_int16 (hexdigest (sha256 m)) = Inr (be_int (sha256 m))
   \<and> py_int16 (digest_hex p n) = Inr (digest_value p n)
   \<and> (scanner p t count = Inr hits \<longrightarrow> (k, h) \<in> set hits \<longrightarrow>
        h = digest_hex p k \<and> py_int16 h = Inr (digest_value p k) \<and> digest_value p k < t)"
proof -
  have "sha256 m \<noteq> []" using length_sha256 [of m] by auto
  then have a: "py_int16 (hexdigest (sha256 m)) = Inr (be_int (sha256 m))"
    by (rule py_int16_hexdigest)
  have c: "scanner p t count = Inr hits \<longrightarrow> (k, h) \<in> set hits \<longrightarrow>
        h = digest_hex p k \<and> py_int16 h = Inr (digest_value p k) \<and> digest_value p k < t"
    by (auto simp: scanner_eq spec_hits_member py_int16_digest)
  from a py_int16_digest [of p n] c show ?thesis by blast
qed

theorem hex_roundtrip_witness:
  "py_int16 ''03cd34bd1813f6c4658024eaa97dd5da854d6e96547f914688fcbe78aca4b5f8''
     = Inr 0x03cd34bd1813f6c4658024eaa97dd5da854d6e96547f914688fcbe78aca4b5f8
   \<and> digest_value prefix 0 = 0x03cd34bd1813f6c4658024eaa97dd5da854d6e96547f914688fcbe78aca4b5f8
   \<and> scanner prefix (2 ^ 252 - 1) 1
       = Inr [(0, ''03cd34bd1813f6c4658024eaa97dd5da854d6e96547f914688fcbe78aca4b5f8'')]
   \<and> digest_value prefix 0 < 2 ^ 252 - 1"
proof -
  have s: "scanner prefix (2 ^ 252 - 1) 1
       = Inr [(0, ''03cd34bd1813f6c4658024eaa97dd5da854d6e96547f914688fcbe78aca4b5f8'')]"
    by (simp only: scanner_eq spec_hits_1)
  have m: "(0, ''03cd34bd1813f6c4658024eaa97dd5da854d6e96547f914688fcbe78aca4b5f8'')
       \<in> set [(0 :: int, ''03cd34bd1813f6c4658024eaa97dd5da854d6e96547f914688fcbe78aca4b5f8'')]"
    by simp
  from hex_roundtrip [where p = prefix and n = 0 and t = "2 ^ 252 - 1" and count = 1
      and hits = "[(0, ''03cd34bd1813f6c4658024eaa97dd5da854d6e96547f914688fcbe78aca4b5f8'')]"
      and k = 0 and h = "''03cd34bd1813f6c4658024eaa97dd5da854d6e96547f914688fcbe78aca4b5f8''"
      and m = "msg prefix 0"] s m
  have "py_int16 ''03cd34bd1813f6c4658024eaa97dd5da854d6e96547f914688fcbe78aca4b5f8''
          = Inr (digest_value prefix 0)" and "digest_value prefix 0 < 2 ^ 252 - 1"
    by blast+
  with s digest_value_0 show ?thesis by (simp only: simp_thms)
qed

lemma spec_hits_leading_zero:
  "spec_hits p (2 ^ 252 - 1) count
     = filter (\<lambda>nh. leading_zero_hit (snd nh)) (map (\<lambda>n. (n, digest_hex p n)) [0..count - 1])"
  unfolding spec_hits_def
proof (rule filter_cong [OF refl])
  fix nh
  assume "nh \<in> set (map (\<lambda>n. (n, digest_hex p n)) [0..count - 1])"
  then obtain n where "nh = (n, digest_hex p n)" by auto
  then show "(digest_value p (fst nh) < 2 ^ 252 - 1) = leading_zero_hit (snd nh)"
    using digest_below_target_iff [of p n] by (simp only: fst_conv snd_conv)
qed

text \<open>
  Claim C10. The script's target parses to \<open>2 ^ 252 - 1\<close>, and against this target the
  strict comparison of the digest's value is the test that the digest's text begins with
  the character 0 and is not the target's text: a scan with this target keeps exactly
  the nonces that pass the test.
\<close>

theorem target_is_leading_zero_test:
  "py_int16 target_hex = Inr (2 ^ 252 - 1)
   \<and> py_int16 (digest_hex p n) = Inr (digest_value p n)
   \<and> (digest_value p n < 2 ^ 252 - 1) = leading_zero_hit (digest_hex p n)
   \<and> scanner p (2 ^ 252 - 1) count
       = Inr (filter (\<lambda>nh. leading_zero_hit (snd nh)) (map (\<lambda>n. (n, digest_hex p n)) [0..count - 1]))"
  by (simp only: target_value py_int16_digest digest_below_target_iff scanner_eq
      spec_hits_leading_zero simp_thms)

lemma leading_zero_hit_0:
  "leading_zero_hit ''03cd34bd1813f6c4658024eaa97dd5da854d6e96547f914688fcbe78aca4b5f8''"
  by (simp add: leading_zero_hit_def target_hex_def)

lemma leading_zero_hit_1:
  "\<not> leading_zero_hit ''ab4ec62c3da85a92a6d9cf6bfd8434710cbffa5be132be3864747b568e7a8927''"
  by (simp add: leading_zero_hit_def)

lemma leading_zero_hit_target: "\<not> leading_zero_hit target_hex"
  by (simp add: leading_zero_hit_def)

theorem target_is_leading_zero_test_witness:
  "digest_hex prefix 0 = ''03cd34bd1813f6c4658024eaa97dd5da854d6e96547f914688fcbe78aca4b5f8''
   \<and> leading_zero_hit ''03cd34bd1813f6c4658024eaa97dd5da854d6e96547f914688fcbe78aca4b5f8''
   \<and> digest_value prefix 0 < 2 ^ 252 - 1
   \<and> digest_hex prefix 1 = ''ab4ec62c3da85a92a6d9cf6bfd8434710cbffa5be132be3864747b568e7a8927''
   \<and> \<not> leading_zero_hit ''ab4ec62c3da85a92a6d9cf6bfd8434710cbffa5be132be3864747b568e7a8927''
   \<and> \<not> digest_value prefix 1 < 2 ^ 252 - 1"
proof -
  from target_is_leading_zero_test [where p = prefix and n = 0 and count = 2]
  have a: "(digest_value prefix 0 < 2 ^ 252 - 1)
      = leading_zero_hit ''03cd34bd1813f6c4658024eaa97dd5da854d6e96547f914688fcbe78aca4b5f8''"
    by (simp only: digest_hex_0)
  from target_is_leading_zero_test [where p = prefix and n = 1 and count = 2]
  have b: "(digest_value prefix 1 < 2 ^ 252 - 1)
      = leading_zero_hit ''ab4ec62c3da85a92a6d9cf6bfd8434710cbffa5be132be3864747b568e7a8927''"
    by (simp only: digest_hex_1)
  from a b leading_zero_hit_0 leading_zero_hit_1 digest_hex_0 digest_hex_1
  show ?thesis by (simp only: simp_thms)
qed

lemma spec_hits_all:
  "spec_hits p (2 ^ 256) count = map (\<lambda>n. (n, digest_hex p n)) [0..count - 1]"
  unfolding spec_hits_def by (intro filter_True ballI) (rule digest_value_bounds(2))

lemma print_lines_all: "list_all (list_all enc) ls \<Longrightarrow> print_lines enc ls = (ls, None)"
  by (induction ls) simp_all

lemma print_lines_None: "print_lines enc ls = (out, None) \<Longrightarrow> out = ls"
  by (induction ls arbitrary: out) (auto split: if_splits prod.splits)

lemma utf8_str_lit: "list_all utf8_stdout (str_lit s)"
proof -
  have "utf8_stdout (of_char c)" for c
  proof -
    have "(of_char c :: nat) < 256" by simp
    then have "(of_char c :: nat) < 55296" and "(of_char c :: nat) \<le> 1114111"
      by linarith+
    then show ?thesis by (simp only: utf8_stdout_def simp_thms)
  qed
  then show ?thesis by (simp add: str_lit_def list_all_iff)
qed

lemma utf8_report: "list_all (list_all utf8_stdout) (report th hits)"
proof -
  have cjk: "list_all utf8_stdout [0x671F, 0x5F85, 0x503C, 0x7D04]"
    by (simp add: utf8_stdout_def)
  have hl: "list_all utf8_stdout (hit_line nh)" for nh
    unfolding hit_line_def by (rule utf8_str_lit)
  have m: "list_all (list_all utf8_stdout) (map hit_line hits)"
    by (induction hits) (simp_all add: hl)
  show ?thesis
    unfolding report_def using cjk
    by (simp only: list_all_append list.pred_inject utf8_str_lit m simp_thms)
qed

lemma script_run:
  "py_int16 th = Inr t
     \<Longrightarrow> script enc th p count = print_lines enc (report th (spec_hits p t count))"
  by (simp add: script_def scanner_eq)

lemma script_ok:
  "py_int16 th = Inr t
     \<Longrightarrow> script utf8_stdout th p count = (report th (spec_hits p t count), None)"
  by (simp only: script_run print_lines_all [OF utf8_report])

lemma script_error: "py_int16 th = Inl e \<Longrightarrow> script enc th p count = ([], Some e)"
  by (simp add: script_def)

lemma spec_hits_empty: "count \<le> 0 \<Longrightarrow> spec_hits p t count = []"
  by (simp add: spec_hits_def)

lemma py_range_64: "py_range 64 = [0..63]"
  by (simp add: py_range_def)

lemma upto_0_63_ends: "hd [0..63 :: int] = 0" "last [0..63 :: int] = 63" "length [0..63 :: int] = 64"
proof -
  have "[0..63 :: int] = 0 # [1..63]" by (simp add: upto_rec1)
  then show "hd [0..63 :: int] = 0" by simp
  have "[0..63 :: int] = [0..62] @ [63]" by (simp add: upto_rec2)
  then show "last [0..63 :: int] = 63" by simp
  show "length [0..63 :: int] = 64" by simp
qed

text \<open>
  Claim C7. The range of the script is the nonces 0 to 63: it starts with 0, ends with 63
  and has 64 elements. Both ends are processed: nonce 0 is a hit exactly when its digest is
  below the target, so is nonce 63, no hit has a nonce outside 0 to 63, and with a target
  above every digest all 64 nonces are hits. A count of 0 gives no hit and no error: the
  scanner returns the empty list, and the run goes on to print the lines of a scan with
  no hit, which a standard output in UTF-8 takes without error.
\<close>

theorem range_boundaries:
  "py_range 64 = [0..63] \<and> hd (py_range 64) = 0 \<and> last (py_range 64) = 63
   \<and> length (py_range 64) = 64
   \<and> (\<exists>hits. scanner p t 64 = Inr hits
        \<and> ((0, digest_hex p 0) \<in> set hits) = (digest_value p 0 < t)
        \<and> ((63, digest_hex p 63) \<in> set hits) = (digest_value p 63 < t)
        \<and> fst ` set hits \<subseteq> {0..63})
   \<and> scanner p (2 ^ 256) 64 = Inr (map (\<lambda>n. (n, digest_hex p n)) [0..63])
   \<and> scanner p t 0 = Inr []
   \<and> (py_int16 th = Inr t \<longrightarrow> script enc th p 0 = print_lines enc (report th []))
   \<and> (py_int16 th = Inr t \<longrightarrow> script utf8_stdout th p 0 = (report th [], None))"
proof -
  have a: "((0, digest_hex p 0) \<in> set (spec_hits p t 64)) = (digest_value p 0 < t)"
    by (simp add: spec_hits_member)
  have b: "((63, digest_hex p 63) \<in> set (spec_hits p t 64)) = (digest_value p 63 < t)"
    by (simp add: spec_hits_member)
  have c: "fst ` set (spec_hits p t 64) \<subseteq> {0..63}"
    by (auto simp: spec_hits_member)
  have "[0..64 - 1] = [0..63 :: int]" by simp
  then have d: "scanner p (2 ^ 256) 64 = Inr (map (\<lambda>n. (n, digest_hex p n)) [0..63])"
    by (simp only: scanner_eq spec_hits_all)
  have e: "scanner p t 0 = Inr []"
    by (simp add: scanner_eq spec_hits_empty)
  have f: "py_int16 th = Inr t \<longrightarrow> script enc th p 0 = print_lines enc (report th [])"
    by (simp add: script_run spec_hits_empty)
  have g: "py_int16 th = Inr t \<longrightarrow> script utf8_stdout th p 0 = (report th [], None)"
    by (simp add: script_ok spec_hits_empty)
  from a b c have "\<exists>hits. scanner p t 64 = Inr hits
        \<and> ((0, digest_hex p 0) \<in> set hits) = (digest_value p 0 < t)
        \<and> ((63, digest_hex p 63) \<in> set hits) = (digest_value p 63 < t)
        \<and> fst ` set hits \<subseteq> {0..63}"
    by (simp add: scanner_eq)
  with d e f g show ?thesis
    by (simp only: py_range_64 upto_0_63_ends simp_thms)
qed

theorem range_boundaries_witness:
  "scanner prefix (2 ^ 252 - 1) 0 = Inr []
   \<and> script utf8_stdout target_hex prefix 0 = (report target_hex [], None)
   \<and> (\<exists>hits. scanner prefix (2 ^ 252 - 1) 64 = Inr hits
        \<and> (0, ''03cd34bd1813f6c4658024eaa97dd5da854d6e96547f914688fcbe78aca4b5f8'') \<in> set hits
        \<and> (63, ''a0d8baa8725cc5ef9fc30ce8a9d906007a3d90a30cc1e03b97d375a4310b104e'') \<notin> set hits
        \<and> fst ` set hits \<subseteq> {0..63})"
proof -
  note r = range_boundaries [where p = prefix and t = "2 ^ 252 - 1" and th = target_hex
      and enc = utf8_stdout]
  from r have a: "scanner prefix (2 ^ 252 - 1) 0 = Inr []" by blast
  from r target_value
  have b: "script utf8_stdout target_hex prefix 0 = (report target_hex [], None)" by blast
  from r obtain hits where h: "scanner prefix (2 ^ 252 - 1) 64 = Inr hits"
      "((0, digest_hex prefix 0) \<in> set hits) = (digest_value prefix 0 < 2 ^ 252 - 1)"
      "((63, digest_hex prefix 63) \<in> set hits) = (digest_value prefix 63 < 2 ^ 252 - 1)"
      "fst ` set hits \<subseteq> {0..63}"
    by blast
  from h(2) hit_0 have c: "(0, ''03cd34bd1813f6c4658024eaa97dd5da854d6e96547f914688fcbe78aca4b5f8'') \<in> set hits"
    by (simp only: digest_hex_0 simp_thms)
  from h(3) miss_63 have d: "(63, ''a0d8baa8725cc5ef9fc30ce8a9d906007a3d90a30cc1e03b97d375a4310b104e'') \<notin> set hits"
    by (simp only: digest_hex_63 simp_thms)
  from a b h(1) c d h(4) show ?thesis by blast
qed

subsection \<open>The message\<close>











lemma py_str_nonneg: "0 \<le> n \<Longrightarrow> py_str n = decimal (nat n)"
  by (simp add: py_str_def)


lemma length_digest_hex: "length (digest_hex p n) = 64"
  by (simp add: digest_hex_def length_hexdigest length_sha256)

lemma set_digest_hex: "set (digest_hex p n) \<subseteq> set ''0123456789abcdef''"
  unfolding digest_hex_def by (rule set_hexdigest)








subsection \<open>The printed lines\<close>

lemma decimal_small: "n < 10 \<Longrightarrow> decimal n = [digit_char n]"
  by (simp add: decimal.simps)

lemma length_decimal_pos: "0 < length (decimal n)"
  by (subst decimal.simps) simp

lemma length_decimal_large: "10 \<le> n \<Longrightarrow> 2 \<le> length (decimal n)"
proof -
  assume "10 \<le> n"
  then have "decimal n = decimal (n div 10) @ [digit_char (n mod 10)]"
    by (subst decimal.simps) simp
  with length_decimal_pos [of "n div 10"] show ?thesis
    by (cases "decimal (n div 10)") simp_all
qed

lemma format_2d_nonneg:
  assumes "0 \<le> n"
  shows "format_2d n = (if n < 10 then '' '' else '''') @ py_str n"
proof (cases "n < 10")
  case True
  with assms have "nat n < 10" by simp
  then have "length (decimal (nat n)) = 1" by (simp add: decimal_small)
  with True assms show ?thesis by (simp add: format_2d_def py_str_nonneg)
next
  case False
  then have "10 \<le> nat n" by simp
  from length_decimal_large [OF this] False assms show ?thesis
    by (simp add: format_2d_def py_str_nonneg)
qed

lemma hit_line_nonneg:
  assumes "0 \<le> fst nh"
  shows "hit_line nh = str_lit (''  nonce='' @ (if fst nh < 10 then '' '' else '''')
           @ py_str (fst nh) @ ''  hash=0x'' @ snd nh)"
  by (simp only: hit_line_def format_2d_nonneg [OF assms] append_assoc)

lemma length_report: "length (report th hits) = 2 + length hits"
  by (simp add: report_def)

lemma report_nth:
  "report th hits ! 0 = str_lit (''Trials: 64, Target: 0x'' @ th)"
  "report th hits ! 1 = str_lit (''Hits: '' @ py_str (int (length hits)) @ '' ('')
        @ [0x671F, 0x5F85, 0x503C, 0x7D04] @ str_lit '' 64 * 1/16 = 4)''"
  "i < length hits \<Longrightarrow> report th hits ! (2 + i) = hit_line (hits ! i)"
  by (simp_all add: report_def)

lemma script_cases:
  "script enc th p count
     = (case py_int16 th of
          Inl e \<Rightarrow> ([], Some e)
        | Inr t \<Rightarrow> print_lines enc (report th (spec_hits p t count)))"
  by (simp add: script_def scanner_eq split: sum.splits)

text \<open>
  Claim C4, amended. A run that does not raise, whatever the encoding of standard output,
  prints exactly: one summary line
  \<open>Trials: 64, Target: 0x\<close> and the target's text; one line \<open>Hits: \<close>, the number
  of hits and a fixed remark; then one line for each hit, in the order of the hits: two
  spaces, \<open>nonce=\<close>, the nonce right-aligned in width 2 (a space before a single digit),
  two spaces, \<open>hash=0x\<close> and the 64 hexadecimal characters of the digest.
\<close>

theorem output_format:
  assumes "script enc th p count = (out, None)"
  shows "\<exists>t hits. py_int16 th = Inr t \<and> scanner p t count = Inr hits
    \<and> length out = 2 + length hits
    \<and> out ! 0 = str_lit (''Trials: 64, Target: 0x'' @ th)
    \<and> out ! 1 = str_lit (''Hits: '' @ py_str (int (length hits)) @ '' ('')
        @ [0x671F, 0x5F85, 0x503C, 0x7D04] @ str_lit '' 64 * 1/16 = 4)''
    \<and> (\<forall>i < length hits.
          out ! (2 + i) = str_lit (''  nonce='' @ (if fst (hits ! i) < 10 then '' '' else '''')
                            @ py_str (fst (hits ! i)) @ ''  hash=0x'' @ snd (hits ! i))
          \<and> length (snd (hits ! i)) = 64
          \<and> set (snd (hits ! i)) \<subseteq> set ''0123456789abcdef'')"
proof -
  from assms obtain t where t: "py_int16 th = Inr t"
    and pr: "print_lines enc (report th (spec_hits p t count)) = (out, None)"
    by (auto simp: script_cases split: sum.splits)
  from pr have out: "out = report th (spec_hits p t count)"
    by (rule print_lines_None)
  let ?hits = "spec_hits p t count"
  have lines: "out ! (2 + i) = str_lit (''  nonce='' @ (if fst (?hits ! i) < 10 then '' '' else '''')
                            @ py_str (fst (?hits ! i)) @ ''  hash=0x'' @ snd (?hits ! i))
          \<and> length (snd (?hits ! i)) = 64
          \<and> set (snd (?hits ! i)) \<subseteq> set ''0123456789abcdef''" if "i < length ?hits" for i
  proof -
    from that have "?hits ! i \<in> set ?hits" by simp
    then have "(fst (?hits ! i), snd (?hits ! i)) \<in> set ?hits" by simp
    then have n: "0 \<le> fst (?hits ! i)" and h: "snd (?hits ! i) = digest_hex p (fst (?hits ! i))"
      unfolding spec_hits_member by blast+
    have "out ! (2 + i) = hit_line (?hits ! i)"
      unfolding out using that by (rule report_nth(3))
    with hit_line_nonneg [OF n] length_digest_hex [of p "fst (?hits ! i)"]
      set_digest_hex [of p "fst (?hits ! i)"] h
    show ?thesis by simp
  qed
  have "length out = 2 + length ?hits" by (simp only: out length_report)
  moreover have "out ! 0 = str_lit (''Trials: 64, Target: 0x'' @ th)"
    by (simp only: out report_nth(1))
  moreover have "out ! 1 = str_lit (''Hits: '' @ py_str (int (length ?hits)) @ '' ('')
        @ [0x671F, 0x5F85, 0x503C, 0x7D04] @ str_lit '' 64 * 1/16 = 4)''"
    by (simp only: out report_nth(2))
  ultimately show ?thesis using t scanner_eq [of p t count] lines by blast
qed

lemma py_str_0: "py_str 0 = ''0''"
  by code_simp

lemma py_str_1: "py_str 1 = ''1''"
  by code_simp

lemma hit_line_0:
  "hit_line (0, ''03cd34bd1813f6c4658024eaa97dd5da854d6e96547f914688fcbe78aca4b5f8'')
     = str_lit ''  nonce= 0  hash=0x03cd34bd1813f6c4658024eaa97dd5da854d6e96547f914688fcbe78aca4b5f8''"
  by code_simp

lemma report_one_hit:
  "report target_hex [(0, ''03cd34bd1813f6c4658024eaa97dd5da854d6e96547f914688fcbe78aca4b5f8'')]
     = [str_lit ''Trials: 64, Target: 0x0fffffffffffffffffffffffffffffffffffffffffffffffffffffffffffffff'',
        str_lit ''Hits: 1 ('' @ [0x671F, 0x5F85, 0x503C, 0x7D04] @ str_lit '' 64 * 1/16 = 4)'',
        str_lit ''  nonce= 0  hash=0x03cd34bd1813f6c4658024eaa97dd5da854d6e96547f914688fcbe78aca4b5f8'']"
  unfolding report_def target_hex_def by (simp add: py_str_1 hit_line_0)

lemma script_one_pass:
  "script utf8_stdout target_hex prefix 1
     = ([str_lit ''Trials: 64, Target: 0x0fffffffffffffffffffffffffffffffffffffffffffffffffffffffffffffff'',
        str_lit ''Hits: 1 ('' @ [0x671F, 0x5F85, 0x503C, 0x7D04] @ str_lit '' 64 * 1/16 = 4)'',
        str_lit ''  nonce= 0  hash=0x03cd34bd1813f6c4658024eaa97dd5da854d6e96547f914688fcbe78aca4b5f8''],
        None)"
  by (simp only: script_ok [OF target_value] spec_hits_1 report_one_hit)

theorem output_format_witness:
  "script utf8_stdout target_hex prefix 1
     = ([str_lit ''Trials: 64, Target: 0x0fffffffffffffffffffffffffffffffffffffffffffffffffffffffffffffff'',
        str_lit ''Hits: 1 ('' @ [0x671F, 0x5F85, 0x503C, 0x7D04] @ str_lit '' 64 * 1/16 = 4)'',
        str_lit ''  nonce= 0  hash=0x03cd34bd1813f6c4658024eaa97dd5da854d6e96547f914688fcbe78aca4b5f8''],
        None)
   \<and> (\<exists>t hits. py_int16 target_hex = Inr t \<and> scanner prefix t 1 = Inr hits \<and> length hits = 1)"
proof -
  from output_format [OF script_one_pass]
  obtain t hits where "py_int16 target_hex = Inr t" "scanner prefix t 1 = Inr hits"
    "length [str_lit ''Trials: 64, Target: 0x0fffffffffffffffffffffffffffffffffffffffffffffffffffffffffffffff'',
        str_lit ''Hits: 1 ('' @ [0x671F, 0x5F85, 0x503C, 0x7D04] @ str_lit '' 64 * 1/16 = 4)'',
        str_lit ''  nonce= 0  hash=0x03cd34bd1813f6c4658024eaa97dd5da854d6e96547f914688fcbe78aca4b5f8'']
      = 2 + length hits"
    by blast
  then have "py_int16 target_hex = Inr t \<and> scanner prefix t 1 = Inr hits \<and> length hits = 1"
    by simp
  with script_one_pass show ?thesis by blast
qed

lemma spec_hits_64_first:
  "spec_hits prefix (2 ^ 252 - 1) 64
     = (0, ''03cd34bd1813f6c4658024eaa97dd5da854d6e96547f914688fcbe78aca4b5f8'')
        # filter (\<lambda>nh. digest_value prefix (fst nh) < 2 ^ 252 - 1)
            (map (\<lambda>n. (n, digest_hex prefix n)) [1..63])"
proof -
  have "[0..64 - 1] = 0 # [1..63 :: int]"
    using upto_rec1 [of 0 63] by simp
  then show ?thesis
    unfolding spec_hits_def using hit_0 by (simp add: digest_hex_0)
qed

lemma main_eq:
  "main utf8_stdout = (report target_hex (spec_hits prefix (2 ^ 252 - 1) 64), None)"
  unfolding main_def by (rule script_ok) (rule target_value)

lemma report_third: "report th (nh # rest) ! 2 = hit_line nh"
  by (simp add: report_def)

lemma spec_hit_line_0:
  "spec_hit_line (0, ''03cd34bd1813f6c4658024eaa97dd5da854d6e96547f914688fcbe78aca4b5f8'')
     = str_lit ''nonce=0 hash=0x03cd34bd1813f6c4658024eaa97dd5da854d6e96547f914688fcbe78aca4b5f8''"
  by code_simp

lemma lines_differ:
  "str_lit ''  nonce= 0  hash=0x03cd34bd1813f6c4658024eaa97dd5da854d6e96547f914688fcbe78aca4b5f8''
     \<noteq> str_lit ''nonce=0 hash=0x03cd34bd1813f6c4658024eaa97dd5da854d6e96547f914688fcbe78aca4b5f8''"
  by (simp add: str_lit_def)

text \<open>
  Claim C4 as stated, refuted: on a standard output in UTF-8 the script runs without error,
  the third line that it prints is the line of its first hit, nonce 0, and it is not \<open>nonce=0 hash=0x...\<close>, the line of the
  specification: it starts with two spaces, pads the nonce and has two spaces before
  \<open>hash\<close>.
\<close>

theorem hit_line_differs_from_spec:
  "snd (main utf8_stdout) = None
   \<and> fst (main utf8_stdout) ! 2
       = str_lit ''  nonce= 0  hash=0x03cd34bd1813f6c4658024eaa97dd5da854d6e96547f914688fcbe78aca4b5f8''
   \<and> spec_hit_line (0, ''03cd34bd1813f6c4658024eaa97dd5da854d6e96547f914688fcbe78aca4b5f8'')
       = str_lit ''nonce=0 hash=0x03cd34bd1813f6c4658024eaa97dd5da854d6e96547f914688fcbe78aca4b5f8''
   \<and> str_lit ''  nonce= 0  hash=0x03cd34bd1813f6c4658024eaa97dd5da854d6e96547f914688fcbe78aca4b5f8''
       \<noteq> str_lit ''nonce=0 hash=0x03cd34bd1813f6c4658024eaa97dd5da854d6e96547f914688fcbe78aca4b5f8''"
proof -
  have "fst (main utf8_stdout) ! 2
     = hit_line (0, ''03cd34bd1813f6c4658024eaa97dd5da854d6e96547f914688fcbe78aca4b5f8'')"
    by (simp only: main_eq spec_hits_64_first report_third fst_conv)
  moreover have "snd (main utf8_stdout) = None"
    by (simp only: main_eq snd_conv)
  ultimately show ?thesis using spec_hit_line_0 lines_differ
    by (simp only: hit_line_0 simp_thms)
qed

lemma report_no_hits:
  "report target_hex []
     = [str_lit ''Trials: 64, Target: 0x0fffffffffffffffffffffffffffffffffffffffffffffffffffffffffffffff'',
        str_lit ''Hits: 0 ('' @ [0x671F, 0x5F85, 0x503C, 0x7D04] @ str_lit '' 64 * 1/16 = 4)'']"
  unfolding report_def target_hex_def by (simp add: py_str_0)

text \<open>
  Claim C3 as stated, refuted: with a negative count the script does not fail. The range
  is empty, and the run (on a standard output in UTF-8) prints its two header lines with
  zero hits and ends without error.
\<close>

theorem negative_count_is_no_error:
  "script utf8_stdout target_hex prefix (- 1)
     = ([str_lit ''Trials: 64, Target: 0x0fffffffffffffffffffffffffffffffffffffffffffffffffffffffffffffff'',
         str_lit ''Hits: 0 ('' @ [0x671F, 0x5F85, 0x503C, 0x7D04] @ str_lit '' 64 * 1/16 = 4)''],
        None)"
proof -
  have "spec_hits prefix (2 ^ 252 - 1) (- 1) = []"
    by (rule spec_hits_empty) simp
  then show ?thesis
    by (simp only: script_ok [OF target_value] report_no_hits)
qed

text \<open>
  Claim C3, amended. The script fails when the target's text is malformed: \<open>int\<close>
  raises \<open>ValueError\<close> before the loop, so the run ends at once with that error and
  has printed nothing. A negative count is no failure: the range is empty, the scan has
  no hit, and the run goes on to print the lines of a scan with no hit, which a standard
  output in UTF-8 takes without error.
\<close>

theorem malformed_target_aborts:
  "(py_int16 th = Inl e \<longrightarrow> script enc th p count = ([], Some e))
   \<and> (py_int16 th = Inr t \<longrightarrow> count \<le> 0 \<longrightarrow>
        script enc th p count = print_lines enc (report th []))
   \<and> (py_int16 th = Inr t \<longrightarrow> count \<le> 0 \<longrightarrow>
        script utf8_stdout th p count = (report th [], None))"
  by (simp add: script_cases spec_hits_empty print_lines_all [OF utf8_report])

lemma malformed_0xg: "py_int16 ''0xg'' = Inl ValueError"
  by code_simp

theorem malformed_target_aborts_witness:
  "py_int16 ''0xg'' = Inl ValueError
   \<and> script utf8_stdout ''0xg'' prefix 64 = ([], Some ValueError)
   \<and> py_int16 target_hex = Inr (2 ^ 252 - 1)
   \<and> (- 1 :: int) \<le> 0
   \<and> script utf8_stdout target_hex prefix (- 1) = (report target_hex [], None)"
proof -
  from malformed_target_aborts [where th = "''0xg''" and e = ValueError and p = prefix
      and count = 64 and enc = utf8_stdout] malformed_0xg
  have a: "script utf8_stdout ''0xg'' prefix 64 = ([], Some ValueError)" by blast
  have le: "(- 1 :: int) \<le> 0" by simp
  from malformed_target_aborts [where th = target_hex and t = "2 ^ 252 - 1" and p = prefix
      and count = "- 1" and enc = utf8_stdout] target_value le
  have c: "script utf8_stdout target_hex prefix (- 1) = (report target_hex [], None)"
    by blast
  from malformed_0xg a target_value le c show ?thesis by blast
qed

text \<open>
  The prints can fail too, whatever the target and the count: the second line holds four
  code points beyond ASCII, so on a standard output in ASCII the run ends with
  \<open>UnicodeEncodeError\<close> after its first line.
\<close>

lemma ascii_first_line:
  "list_all ascii_stdout
     (str_lit ''Trials: 64, Target: 0x0fffffffffffffffffffffffffffffffffffffffffffffffffffffffffffffff'')"
  by code_simp

lemma ascii_stdout_run:
  "script ascii_stdout target_hex prefix count
     = ([str_lit ''Trials: 64, Target: 0x0fffffffffffffffffffffffffffffffffffffffffffffffffffffffffffffff''],
        Some UnicodeEncodeError)"
proof -
  have l1: "str_lit (''Trials: 64, Target: 0x'' @ target_hex)
      = str_lit ''Trials: 64, Target: 0x0fffffffffffffffffffffffffffffffffffffffffffffffffffffffffffffff''"
    by (simp add: target_hex_def)
  have "\<not> ascii_stdout 0x671F" by (simp add: ascii_stdout_def)
  then have l2: "\<not> list_all ascii_stdout (str_lit a @ [0x671F, 0x5F85, 0x503C, 0x7D04] @ b)"
    for a b
    by (simp only: list_all_append list.pred_inject simp_thms)
  show ?thesis
    unfolding script_run [OF target_value] report_def l1
    using ascii_first_line l2 by (simp only: append_Cons append_Nil print_lines.simps if_True if_False prod.case)
qed

end
